theory Spec2Isabelle
  imports Complex_Main
begin

section \<open>Diffusion on a 2D grid with a Moore neighbourhood (lab5.ipynb)\<close>

text \<open>
  The notebook defines \<^verbatim>\<open>get_neighbors(i, j, M, N)\<close> and
  \<^verbatim>\<open>simulate_diffusion(M, N, T, u0, K)\<close>. Python integers are modelled as \<open>int\<close>.
  The entries of the NumPy arrays are modelled as \<open>real\<close>: the arithmetic of the model is
  exact, rounding of IEEE doubles is not modelled. \<^verbatim>\<open>u0\<close> is an array-like of floats, as
  the docstring of \<^verbatim>\<open>simulate_diffusion\<close> says.
\<close>

subsection \<open>get_neighbors\<close>

text \<open>
  \<^verbatim>\<open>
  neighbors = []
  for di in [-1, 0, 1]:
      for dj in [-1, 0, 1]:
          if di == 0 and dj == 0:
              continue
          ni, nj = i + di, j + dj
          if 0 <= ni < M and 0 <= nj < N:
              neighbors.append((ni, nj))
  return neighbors
  \<close>
  The two loops run over fixed lists, so the list of appended coordinates is the
  concatenation, in loop order, of what each pair of offsets contributes.
\<close>

definition get_neighbors :: "int \<Rightarrow> int \<Rightarrow> int \<Rightarrow> int \<Rightarrow> (int \<times> int) list" where
  "get_neighbors i j M N =
     concat (map (\<lambda>di.
       concat (map (\<lambda>dj.
         if di = 0 \<and> dj = 0 then []
         else (let ni = i + di; nj = j + dj
               in if 0 \<le> ni \<and> ni < M \<and> 0 \<le> nj \<and> nj < N then [(ni, nj)] else []))
         [-1, 0, 1]))
       [-1, 0, 1])"

text \<open>The classification of cells used by the specification.\<close>

definition is_corner :: "int \<Rightarrow> int \<Rightarrow> int \<Rightarrow> int \<Rightarrow> bool" where
  "is_corner i j M N \<longleftrightarrow> (i = 0 \<or> i = M - 1) \<and> (j = 0 \<or> j = N - 1)"

definition is_interior :: "int \<Rightarrow> int \<Rightarrow> int \<Rightarrow> int \<Rightarrow> bool" where
  "is_interior i j M N \<longleftrightarrow> 0 < i \<and> i < M - 1 \<and> 0 < j \<and> j < N - 1"

definition is_edge_non_corner :: "int \<Rightarrow> int \<Rightarrow> int \<Rightarrow> int \<Rightarrow> bool" where
  "is_edge_non_corner i j M N \<longleftrightarrow>
     ((i = 0 \<or> i = M - 1) \<or> (j = 0 \<or> j = N - 1)) \<and> \<not> is_corner i j M N"

text \<open>Strict lexicographic order on (row, column) pairs.\<close>

definition lex_less :: "int \<times> int \<Rightarrow> int \<times> int \<Rightarrow> bool" where
  "lex_less p q \<longleftrightarrow> fst p < fst q \<or> (fst p = fst q \<and> snd p < snd q)"


text \<open>The eight candidate coordinates around \<open>(i, j)\<close>, in the order of the two loops.\<close>

definition moore :: "int \<Rightarrow> int \<Rightarrow> (int \<times> int) list" where
  "moore i j = [(i - 1, j - 1), (i - 1, j), (i - 1, j + 1), (i, j - 1), (i, j + 1),
                (i + 1, j - 1), (i + 1, j), (i + 1, j + 1)]"

definition in_grid :: "int \<Rightarrow> int \<Rightarrow> int \<times> int \<Rightarrow> bool" where
  "in_grid M N p \<longleftrightarrow> 0 \<le> fst p \<and> fst p < M \<and> 0 \<le> snd p \<and> snd p < N"

subsection \<open>NumPy arrays and the objects they live in\<close>

text \<open>
  A two-dimensional array of floats is modelled by the list of its rows. Indexing with an
  integer that is out of range raises \<^verbatim>\<open>IndexError\<close>; a negative index counts from the end,
  as in NumPy. \<^verbatim>\<open>np.array(u0)\<close> needs rows of equal length (NumPy raises
  \<^verbatim>\<open>ValueError\<close> for a ragged nested list).
\<close>

datatype error = IndexError | ValueError

type_synonym ndarray = "real list list"

definition rectangular :: "real list list \<Rightarrow> bool" where
  "rectangular a =
     (case a of [] \<Rightarrow> True | r # rs \<Rightarrow> list_all (\<lambda>row. length row = length r) rs)"

definition np_array :: "real list list \<Rightarrow> error + ndarray" where
  "np_array u0 = (if rectangular u0 then Inr u0 else Inl ValueError)"

definition has_shape :: "ndarray \<Rightarrow> int \<Rightarrow> int \<Rightarrow> bool" where
  "has_shape a M N \<longleftrightarrow> int (length a) = M \<and> list_all (\<lambda>row. int (length row) = N) a"

definition np_index :: "nat \<Rightarrow> int \<Rightarrow> error + nat" where
  "np_index n i =
     (if 0 \<le> i \<and> i < int n then Inr (nat i)
      else if - int n \<le> i \<and> i < 0 then Inr (nat (int n + i))
      else Inl IndexError)"

definition getitem :: "ndarray \<Rightarrow> int \<Rightarrow> int \<Rightarrow> error + real" where
  "getitem a i j =
     (case np_index (length a) i of
        Inl e \<Rightarrow> Inl e
      | Inr r \<Rightarrow>
          (case np_index (length (a ! r)) j of
             Inl e \<Rightarrow> Inl e
           | Inr c \<Rightarrow> Inr (a ! r ! c)))"

definition setitem :: "ndarray \<Rightarrow> int \<Rightarrow> int \<Rightarrow> real \<Rightarrow> error + ndarray" where
  "setitem a i j v =
     (case np_index (length a) i of
        Inl e \<Rightarrow> Inl e
      | Inr r \<Rightarrow>
          (case np_index (length (a ! r)) j of
             Inl e \<Rightarrow> Inl e
           | Inr c \<Rightarrow> Inr (a[r := (a ! r)[c := v]])))"

text \<open>
  Arrays are mutable objects: \<^verbatim>\<open>u_new[i, j] = ...\<close> changes the array that
  \<^verbatim>\<open>u_new\<close> refers to, and every other name of that array sees the change. The model keeps
  the arrays in a store indexed by references; a Python variable holds a reference.
  \<^verbatim>\<open>u.copy()\<close> allocates a new array with the same contents.
\<close>

type_synonym ref = nat

record heap =
  store :: "ref \<Rightarrow> ndarray"
  fresh :: ref

definition empty_heap :: heap where
  "empty_heap = \<lparr>store = (\<lambda>_. []), fresh = 0\<rparr>"

definition alloc :: "ndarray \<Rightarrow> heap \<Rightarrow> ref \<times> heap" where
  "alloc a h = (fresh h, \<lparr>store = (store h)(fresh h := a), fresh = Suc (fresh h)\<rparr>)"

definition np_copy :: "ref \<Rightarrow> heap \<Rightarrow> ref \<times> heap" where
  "np_copy r h = alloc (store h r) h"

subsection \<open>Loops\<close>

text \<open>A \<^verbatim>\<open>for\<close> loop over a list threads the state through the body and stops at the
  first exception. \<^verbatim>\<open>range(n)\<close> is empty when \<open>n \<le> 0\<close>.\<close>

fun for_loop :: "'a list \<Rightarrow> ('a \<Rightarrow> 's \<Rightarrow> error + 's) \<Rightarrow> 's \<Rightarrow> error + 's" where
  "for_loop [] body s = Inr s"
| "for_loop (x # xs) body s =
     (case body x s of Inl e \<Rightarrow> Inl e | Inr s' \<Rightarrow> for_loop xs body s')"

definition py_range :: "int \<Rightarrow> int list" where
  "py_range n = map int [0..<nat n]"

subsection \<open>simulate_diffusion\<close>

text \<open>
  \<^verbatim>\<open>
  u = np.array(u0)
  history = [u.copy()]
  for t in range(T):
      u_new = u.copy()
      for i in range(M):
          for j in range(N):
              neighbors = get_neighbors(i, j, M, N)
              diffusion_sum = sum(u[ni, nj] for ni, nj in neighbors)
              u_new[i, j] = (1 - K) * u[i, j] + (K / 8) * diffusion_sum
      u = u_new
      history.append(u.copy())
  return history
  \<close>
\<close>

text \<open>\<^verbatim>\<open>sum(u[ni, nj] for ni, nj in neighbors)\<close>: the built-in sum starts at 0 and adds the
  items from left to right.\<close>

fun sum_items :: "ndarray \<Rightarrow> (int \<times> int) list \<Rightarrow> real \<Rightarrow> error + real" where
  "sum_items u [] acc = Inr acc"
| "sum_items u ((ni, nj) # ns) acc =
     (case getitem u ni nj of Inl e \<Rightarrow> Inl e | Inr v \<Rightarrow> sum_items u ns (acc + v))"

text \<open>The body of the loop over \<open>j\<close>; \<open>u\<close> and \<open>u_new\<close> are the references held by the
  two variables.\<close>

definition update_cell ::
  "ref \<Rightarrow> ref \<Rightarrow> int \<Rightarrow> int \<Rightarrow> real \<Rightarrow> int \<Rightarrow> int \<Rightarrow> heap \<Rightarrow> error + heap" where
  "update_cell u u_new M N K i j h =
     (let neighbors = get_neighbors i j M N in
      case sum_items (store h u) neighbors 0 of
        Inl e \<Rightarrow> Inl e
      | Inr diffusion_sum \<Rightarrow>
          (case getitem (store h u) i j of
             Inl e \<Rightarrow> Inl e
           | Inr uij \<Rightarrow>
               (case setitem (store h u_new) i j ((1 - K) * uij + (K / 8) * diffusion_sum) of
                  Inl e \<Rightarrow> Inl e
                | Inr a \<Rightarrow> Inr (h\<lparr>store := (store h)(u_new := a)\<rparr>))))"

text \<open>One diffusion update: \<^verbatim>\<open>u_new = u.copy()\<close> followed by the two nested loops. It
  returns the reference held by \<open>u_new\<close>.\<close>

definition diffusion_step :: "int \<Rightarrow> int \<Rightarrow> real \<Rightarrow> ref \<Rightarrow> heap \<Rightarrow> error + (ref \<times> heap)" where
  "diffusion_step M N K u h =
     (case np_copy u h of
        (u_new, h1) \<Rightarrow>
          (case for_loop (py_range M)
                  (\<lambda>i. for_loop (py_range N) (\<lambda>j. update_cell u u_new M N K i j)) h1 of
             Inl e \<Rightarrow> Inl e
           | Inr h2 \<Rightarrow> Inr (u_new, h2)))"

text \<open>The body of the loop over \<open>t\<close>; the state is the reference held by \<open>u\<close>, the list of
  references \<open>history\<close>, and the store.\<close>

definition time_step ::
  "int \<Rightarrow> int \<Rightarrow> real \<Rightarrow> ref \<times> ref list \<times> heap \<Rightarrow> error + (ref \<times> ref list \<times> heap)" where
  "time_step M N K s =
     (case s of
        (u, history, h) \<Rightarrow>
          (case diffusion_step M N K u h of
             Inl e \<Rightarrow> Inl e
           | Inr (u_new, h1) \<Rightarrow>
               (case np_copy u_new h1 of
                  (c, h2) \<Rightarrow> Inr (u_new, history @ [c], h2))))"

text \<open>The function returns the list \<open>history\<close>; the result of the model is the list of the
  arrays it refers to when the function returns.\<close>

definition simulate_diffusion ::
  "int \<Rightarrow> int \<Rightarrow> int \<Rightarrow> real list list \<Rightarrow> real \<Rightarrow> error + ndarray list" where
  "simulate_diffusion M N T u0 K =
     (case np_array u0 of
        Inl e \<Rightarrow> Inl e
      | Inr a \<Rightarrow>
          (case alloc a empty_heap of
             (u, h0) \<Rightarrow>
               (case np_copy u h0 of
                  (c, h1) \<Rightarrow>
                    (case for_loop (py_range T) (\<lambda>t. time_step M N K) (u, [c], h1) of
                       Inl e \<Rightarrow> Inl e
                     | Inr (u', history, h) \<Rightarrow> Inr (map (store h) history)))))"

text \<open>One diffusion update applied to an array \<open>a\<close>: the update is run in a store that
  holds \<open>a\<close>, and the array that \<open>u_new\<close> refers to afterwards is read back.\<close>

definition step :: "ndarray \<Rightarrow> int \<Rightarrow> int \<Rightarrow> real \<Rightarrow> error + ndarray" where
  "step a M N K =
     (case alloc a empty_heap of
        (u, h) \<Rightarrow>
          (case diffusion_step M N K u h of
             Inl e \<Rightarrow> Inl e
           | Inr (u_new, h') \<Rightarrow> Inr (store h' u_new)))"

subsection \<open>The update rule as the specification words it\<close>

text \<open>
  \<^verbatim>\<open>new_grid[i][j] = (1-K) * grid[i][j] + (K/8) * sum(grid[n] for n in neighbors(i,j,M,N))\<close>,
  for every cell, all values read from the previous grid.
\<close>

definition cell :: "ndarray \<Rightarrow> int \<Rightarrow> int \<Rightarrow> real" where
  "cell g i j = g ! nat i ! nat j"

definition neighbor_sum :: "ndarray \<Rightarrow> int \<Rightarrow> int \<Rightarrow> int \<Rightarrow> int \<Rightarrow> real" where
  "neighbor_sum g M N i j = (\<Sum>(ni, nj) \<leftarrow> get_neighbors i j M N. cell g ni nj)"

definition spec_cell :: "ndarray \<Rightarrow> int \<Rightarrow> int \<Rightarrow> real \<Rightarrow> int \<Rightarrow> int \<Rightarrow> real" where
  "spec_cell g M N K i j = (1 - K) * cell g i j + (K / 8) * neighbor_sum g M N i j"

definition spec_step :: "ndarray \<Rightarrow> int \<Rightarrow> int \<Rightarrow> real \<Rightarrow> ndarray" where
  "spec_step g M N K = map (\<lambda>i. map (\<lambda>j. spec_cell g M N K i j) (py_range N)) (py_range M)"

definition grid_sum :: "ndarray \<Rightarrow> real" where
  "grid_sum g = sum_list (map sum_list g)"


subsection \<open>Mass of a grid and what the boundary takes\<close>




section \<open>Properties of get_neighbors\<close>

lemma get_neighbors_unfold:
  "get_neighbors i j M N =
     (if 0 \<le> i - 1 \<and> i - 1 < M \<and> 0 \<le> j - 1 \<and> j - 1 < N then [(i - 1, j - 1)] else []) @
     (if 0 \<le> i - 1 \<and> i - 1 < M \<and> 0 \<le> j \<and> j < N then [(i - 1, j)] else []) @
     (if 0 \<le> i - 1 \<and> i - 1 < M \<and> 0 \<le> j + 1 \<and> j + 1 < N then [(i - 1, j + 1)] else []) @
     (if 0 \<le> i \<and> i < M \<and> 0 \<le> j - 1 \<and> j - 1 < N then [(i, j - 1)] else []) @
     (if 0 \<le> i \<and> i < M \<and> 0 \<le> j + 1 \<and> j + 1 < N then [(i, j + 1)] else []) @
     (if 0 \<le> i + 1 \<and> i + 1 < M \<and> 0 \<le> j - 1 \<and> j - 1 < N then [(i + 1, j - 1)] else []) @
     (if 0 \<le> i + 1 \<and> i + 1 < M \<and> 0 \<le> j \<and> j < N then [(i + 1, j)] else []) @
     (if 0 \<le> i + 1 \<and> i + 1 < M \<and> 0 \<le> j + 1 \<and> j + 1 < N then [(i + 1, j + 1)] else [])"
  by (simp add: get_neighbors_def Let_def del: append_assoc)

lemma filter_cons_app: "filter P (x # xs) = (if P x then [x] else []) @ filter P xs"
  by simp

lemma get_neighbors_filter: "get_neighbors i j M N = filter (in_grid M N) (moore i j)"
  by (simp add: get_neighbors_def Let_def moore_def in_grid_def filter_cons_app
           del: filter.simps)

lemma distinct_moore: "distinct (moore i j)"
  by (simp add: moore_def)

lemma sorted_moore: "sorted_wrt lex_less (moore i j)"
  by (simp add: moore_def lex_less_def)

lemma self_notin_moore: "(i, j) \<notin> set (moore i j)"
  by (simp add: moore_def)

lemma set_get_neighbors:
  "set (get_neighbors i j M N) = {p \<in> set (moore i j). in_grid M N p}"
  by (simp add: get_neighbors_filter)

lemma distinct_get_neighbors: "distinct (get_neighbors i j M N)"
  by (simp add: get_neighbors_filter distinct_moore)

text \<open>
  C4. In a grid with at least two rows and two columns an in-bounds corner cell has exactly 3
  neighbours, an edge cell that is no corner exactly 5, and an interior cell (every cell that
  is neither) exactly 8. When the grid has a single row or a single column a cell has at most
  2 neighbours, and the only cell of a 1 x 1 grid has none.
\<close>

theorem get_neighbors_count:
  assumes "0 \<le> i" "i < M" "0 \<le> j" "j < N"
  shows "if 2 \<le> M \<and> 2 \<le> N
         then length (get_neighbors i j M N) =
                (if is_corner i j M N then 3 else if is_edge_non_corner i j M N then 5 else 8)
              \<and> is_interior i j M N = (\<not> is_corner i j M N \<and> \<not> is_edge_non_corner i j M N)
         else if M = 1 \<and> N = 1 then length (get_neighbors i j M N) = 0
         else length (get_neighbors i j M N) \<le> 2"
  using assms
  by (cases "0 < i"; cases "i + 1 < M"; cases "0 < j"; cases "j + 1 < N")
     (simp_all add: get_neighbors_unfold is_corner_def is_edge_non_corner_def is_interior_def)

theorem get_neighbors_count_witness:
  "length (get_neighbors 0 0 3 3) = 3 \<and> is_corner 0 0 3 3 \<and>
   length (get_neighbors 0 1 3 3) = 5 \<and> is_edge_non_corner 0 1 3 3 \<and>
   length (get_neighbors 1 1 3 3) = 8 \<and> is_interior 1 1 3 3 \<and>
   length (get_neighbors 0 1 1 3) \<le> 2 \<and>
   length (get_neighbors 0 0 1 1) = 0"
  using get_neighbors_count [of 0 3 0 3] get_neighbors_count [of 0 3 1 3]
    get_neighbors_count [of 1 3 1 3] get_neighbors_count [of 0 1 1 3]
    get_neighbors_count [of 0 1 0 1]
  by (simp add: is_corner_def is_edge_non_corner_def is_interior_def)

text \<open>
  C9. get_neighbors is a total function of its four integer arguments (its loops run over
  fixed three-element lists), also for out-of-range \<open>i\<close>, \<open>j\<close>. Every returned coordinate
  lies in \<open>[0, M) \<times> [0, N)\<close>, none of them is \<open>(i, j)\<close>, and none is returned twice.
\<close>

theorem get_neighbors_in_bounds_distinct:
  "list_all (\<lambda>(ni, nj). 0 \<le> ni \<and> ni < M \<and> 0 \<le> nj \<and> nj < N \<and> (ni, nj) \<noteq> (i, j))
     (get_neighbors i j M N)
   \<and> distinct (get_neighbors i j M N)"
proof -
  have "(ni, nj) \<noteq> (i, j)" if "(ni, nj) \<in> set (moore i j)" for ni nj
    using that self_notin_moore [of i j] by metis
  then show ?thesis
    unfolding list_all_iff set_get_neighbors
    using distinct_get_neighbors [of i j M N] by (auto simp: in_grid_def)
qed

text \<open>
  C10. The coordinates are returned in strictly increasing lexicographic order of
  (row, column): the outer loop runs over the rows \<open>i - 1, i, i + 1\<close> and the inner one over
  the columns \<open>j - 1, j, j + 1\<close>.
\<close>

theorem get_neighbors_lex_sorted: "sorted_wrt lex_less (get_neighbors i j M N)"
  unfolding get_neighbors_filter by (rule sorted_wrt_filter) (rule sorted_moore)

section \<open>The loops of one diffusion update\<close>

lemma has_shape_length: "has_shape a M N \<Longrightarrow> length a = nat M"
  by (auto simp: has_shape_def)

lemma has_shape_row: "has_shape a M N \<Longrightarrow> r < length a \<Longrightarrow> length (a ! r) = nat N"
  by (auto simp: has_shape_def list_all_length)

lemma has_shape_rectangular: "has_shape a M N \<Longrightarrow> rectangular a"
  by (cases a) (auto simp: has_shape_def rectangular_def list_all_iff)

lemma np_index_in_range: "0 \<le> i \<Longrightarrow> i < int n \<Longrightarrow> np_index n i = Inr (nat i)"
  by (simp add: np_index_def)

lemma getitem_in_range:
  assumes "has_shape a M N" "0 \<le> i" "i < M" "0 \<le> j" "j < N"
  shows "getitem a i j = Inr (cell a i j)"
proof -
  have l: "length a = nat M" using assms(1) by (rule has_shape_length)
  then have "nat i < length a" using assms by simp
  then have "length (a ! nat i) = nat N" using assms(1) has_shape_row by blast
  then show ?thesis using assms l
    by (simp add: getitem_def np_index_in_range cell_def)
qed

lemma setitem_in_range:
  assumes "has_shape a M N" "0 \<le> i" "i < M" "0 \<le> j" "j < N"
  shows "setitem a i j v = Inr (a[nat i := (a ! nat i)[nat j := v]])"
proof -
  have l: "length a = nat M" using assms(1) by (rule has_shape_length)
  then have "nat i < length a" using assms by simp
  then have "length (a ! nat i) = nat N" using assms(1) has_shape_row by blast
  then show ?thesis using assms l
    by (simp add: setitem_def np_index_in_range)
qed

lemma sum_items_in_range:
  assumes "has_shape a M N" "list_all (in_grid M N) ns"
  shows "sum_items a ns acc = Inr (acc + (\<Sum>(ni, nj) \<leftarrow> ns. cell a ni nj))"
  using assms(2)
proof (induction ns arbitrary: acc)
  case Nil
  then show ?case by simp
next
  case (Cons p ns)
  obtain ni nj where p: "p = (ni, nj)" by (cases p)
  from Cons.prems have hd: "in_grid M N (ni, nj)" and rest: "list_all (in_grid M N) ns"
    by (simp_all add: p)
  from hd have "0 \<le> ni" "ni < M" "0 \<le> nj" "nj < N"
    by (simp_all add: in_grid_def)
  then have "getitem a ni nj = Inr (cell a ni nj)"
    using assms(1) getitem_in_range by blast
  then show ?case using Cons.IH [OF rest] by (simp add: p add.assoc)
qed

lemma get_neighbors_in_grid: "list_all (in_grid M N) (get_neighbors i j M N)"
  by (simp add: get_neighbors_filter list_all_iff)

lemma update_cell_in_range:
  assumes "has_shape (store h u) M N" "has_shape (store h u_new) M N"
    and "0 \<le> i" "i < M" "0 \<le> j" "j < N"
  shows "update_cell u u_new M N K i j h =
           Inr (h\<lparr>store := (store h)(u_new :=
                  (store h u_new)[nat i := (store h u_new ! nat i)
                     [nat j := spec_cell (store h u) M N K i j]])\<rparr>)"
  using assms
  by (simp add: update_cell_def sum_items_in_range get_neighbors_in_grid getitem_in_range
        setitem_in_range spec_cell_def neighbor_sum_def)

lemma for_loop_append:
  "for_loop (xs @ ys) body s =
     (case for_loop xs body s of Inl e \<Rightarrow> Inl e | Inr s' \<Rightarrow> for_loop ys body s')"
  by (induction xs arbitrary: s) (auto split: sum.splits)

lemma for_loop_single: "for_loop [x] body s = body x s"
  by (cases "body x s") simp_all

lemma has_shape_cols_nonneg: "has_shape a M N \<Longrightarrow> 0 < M \<Longrightarrow> 0 \<le> N"
  by (cases a) (auto simp: has_shape_def)

lemma has_shape_list_update:
  assumes "has_shape a M N" "int (length r) = N"
  shows "has_shape (a[k := r]) M N"
proof (cases "k < length a")
  case True
  then show ?thesis using assms
    by (auto simp: has_shape_def list_all_length nth_list_update)
next
  case False
  then have "a[k := r] = a" by (simp add: list_update_beyond not_less)
  then show ?thesis using assms by simp
qed

lemma prefix_drop_update:
  assumes "length xs = n" "n < length r"
  shows "(xs @ drop n r)[n := v] = (xs @ [v]) @ drop (Suc n) r"
proof -
  have "drop n r = r ! n # drop (Suc n) r"
    using assms(2) by (simp add: Cons_nth_drop_Suc)
  then show ?thesis using assms(1) by (simp add: list_update_append)
qed

lemma row_loop_prefix:
  assumes ne: "u \<noteq> u_new"
    and su: "has_shape (store h u) M N" and sn: "has_shape (store h u_new) M N"
    and i: "0 \<le> i" "i < M"
  shows "n \<le> nat N \<Longrightarrow>
         for_loop (map int [0..<n]) (\<lambda>j. update_cell u u_new M N K i j) h =
           Inr (h\<lparr>store := (store h)(u_new := (store h u_new)
                  [nat i := map (\<lambda>j. spec_cell (store h u) M N K i (int j)) [0..<n]
                            @ drop n (store h u_new ! nat i)])\<rparr>)"
proof (induction n)
  case 0
  show ?case by simp
next
  case (Suc n)
  define A where "A = store h u_new"
  define f where "f = (\<lambda>j. spec_cell (store h u) M N K i (int j))"
  define row where "row = map f [0..<n] @ drop n (A ! nat i)"
  define h1 where "h1 = h\<lparr>store := (store h)(u_new := A[nat i := row])\<rparr>"
  have lenA: "length A = nat M" using sn has_shape_length A_def by blast
  have iA: "nat i < length A" using i lenA by simp
  have lenrow0: "length (A ! nat i) = nat N"
    using sn iA has_shape_row A_def by blast
  have n: "n < nat N" using Suc.prems by simp
  have lenrow: "length row = nat N" using n lenrow0 by (simp add: row_def)
  have N: "0 \<le> N" using n by simp
  have IH: "for_loop (map int [0..<n]) (\<lambda>j. update_cell u u_new M N K i j) h = Inr h1"
    unfolding h1_def row_def f_def A_def by (rule Suc.IH) (use n in simp)
  have s1u: "store h1 u = store h u" using ne by (simp add: h1_def)
  have s1n: "store h1 u_new = A[nat i := row]" by (simp add: h1_def)
  have sh1u: "has_shape (store h1 u) M N" using su s1u by simp
  have sh1n: "has_shape (store h1 u_new) M N"
    unfolding s1n using sn lenrow N has_shape_list_update [of A M N row "nat i"]
    by (simp add: A_def)
  have j: "0 \<le> int n" "int n < N" using n by simp_all
  have upd: "update_cell u u_new M N K i (int n) h1 =
       Inr (h1\<lparr>store := (store h1)(u_new :=
                  (store h1 u_new)[nat i := (store h1 u_new ! nat i)
                     [nat (int n) := spec_cell (store h1 u) M N K i (int n)]])\<rparr>)"
    using update_cell_in_range [OF sh1u sh1n i j] .
  have rowupd: "row[n := f n] = map f [0..<Suc n] @ drop (Suc n) (A ! nat i)"
    unfolding row_def using prefix_drop_update [of "map f [0..<n]" n "A ! nat i" "f n"] n lenrow0
    by simp
  have "for_loop (map int [0..<Suc n]) (\<lambda>j. update_cell u u_new M N K i j) h =
        update_cell u u_new M N K i (int n) h1"
    using IH by (simp add: for_loop_append for_loop_single del: for_loop.simps)
  also have "\<dots> = Inr (h\<lparr>store := (store h)(u_new := A[nat i := row[n := f n]])\<rparr>)"
    unfolding upd using iA ne by (simp add: h1_def f_def)
  also have "\<dots> = Inr (h\<lparr>store := (store h)(u_new :=
                 A[nat i := map f [0..<Suc n] @ drop (Suc n) (A ! nat i)])\<rparr>)"
    by (simp only: rowupd)
  finally show ?case unfolding A_def f_def .
qed

lemma row_loop:
  assumes ne: "u \<noteq> u_new"
    and su: "has_shape (store h u) M N" and sn: "has_shape (store h u_new) M N"
    and i: "0 \<le> i" "i < M"
  shows "for_loop (py_range N) (\<lambda>j. update_cell u u_new M N K i j) h =
           Inr (h\<lparr>store := (store h)(u_new := (store h u_new)
                  [nat i := map (\<lambda>j. spec_cell (store h u) M N K i j) (py_range N)])\<rparr>)"
proof -
  have "nat i < length (store h u_new)"
    using sn i has_shape_length [of "store h u_new" M N] by simp
  then have "length (store h u_new ! nat i) = nat N"
    using sn has_shape_row by blast
  then have "drop (nat N) (store h u_new ! nat i) = []" by simp
  moreover have "map (\<lambda>j. spec_cell (store h u) M N K i (int j)) [0..<nat N] =
                 map (\<lambda>j. spec_cell (store h u) M N K i j) (py_range N)"
    by (simp add: py_range_def o_def)
  ultimately show ?thesis
    using row_loop_prefix [OF ne su sn i, of "nat N" K] by (simp add: py_range_def o_def)
qed

lemma has_shape_prefix:
  assumes "has_shape A M N" "n \<le> nat M" "0 \<le> N" "\<And>k. length (g k) = nat N"
  shows "has_shape (map g [0..<n] @ drop n A) M N"
proof -
  have "list_all (\<lambda>row. int (length row) = N) (drop n A)"
    using assms(1) set_drop_subset [of n A] by (auto simp: has_shape_def list_all_iff)
  moreover have "list_all (\<lambda>row. int (length row) = N) (map g [0..<n])"
    using assms(3,4) by (simp add: list_all_iff)
  moreover have "int (length (map g [0..<n] @ drop n A)) = M"
    using assms(1,2) by (auto simp: has_shape_def)
  ultimately show ?thesis by (simp add: has_shape_def)
qed

lemma grid_loop_prefix:
  assumes ne: "u \<noteq> u_new"
    and su: "has_shape (store h u) M N" and sn: "has_shape (store h u_new) M N"
  shows "n \<le> nat M \<Longrightarrow>
         for_loop (map int [0..<n])
            (\<lambda>i. for_loop (py_range N) (\<lambda>j. update_cell u u_new M N K i j)) h =
           Inr (h\<lparr>store := (store h)(u_new :=
                  map (\<lambda>i. map (\<lambda>j. spec_cell (store h u) M N K (int i) j) (py_range N)) [0..<n]
                  @ drop n (store h u_new))\<rparr>)"
proof (induction n)
  case 0
  show ?case by simp
next
  case (Suc n)
  define A where "A = store h u_new"
  define f where "f = (\<lambda>i. map (\<lambda>j. spec_cell (store h u) M N K (int i) j) (py_range N))"
  define B where "B = map f [0..<n] @ drop n A"
  define h1 where "h1 = h\<lparr>store := (store h)(u_new := B)\<rparr>"
  have n: "n < nat M" using Suc.prems by simp
  then have M: "0 < M" by simp
  have N: "0 \<le> N" using sn M by (rule has_shape_cols_nonneg)
  have lenA: "length A = nat M" using sn has_shape_length A_def by blast
  have lenf: "length (f k) = nat N" for k by (simp add: f_def py_range_def)
  have shB: "has_shape B M N"
    unfolding B_def using sn n N lenf by (intro has_shape_prefix) (simp_all add: A_def)
  have IH: "for_loop (map int [0..<n])
              (\<lambda>i. for_loop (py_range N) (\<lambda>j. update_cell u u_new M N K i j)) h = Inr h1"
    unfolding h1_def B_def f_def A_def by (rule Suc.IH) (use n in simp)
  have s1u: "store h1 u = store h u" using ne by (simp add: h1_def)
  have s1n: "store h1 u_new = B" by (simp add: h1_def)
  have sh1u: "has_shape (store h1 u) M N" using su s1u by simp
  have sh1n: "has_shape (store h1 u_new) M N" using shB s1n by simp
  have i: "0 \<le> int n" "int n < M" using n by simp_all
  have row: "for_loop (py_range N) (\<lambda>j. update_cell u u_new M N K (int n) j) h1 =
           Inr (h1\<lparr>store := (store h1)(u_new := (store h1 u_new)
                  [nat (int n) := map (\<lambda>j. spec_cell (store h1 u) M N K (int n) j) (py_range N)])\<rparr>)"
    using row_loop [OF ne sh1u sh1n i] .
  have Bupd: "B[n := f n] = map f [0..<Suc n] @ drop (Suc n) A"
    unfolding B_def using prefix_drop_update [of "map f [0..<n]" n A "f n"] n lenA
    by simp
  have "for_loop (map int [0..<Suc n])
          (\<lambda>i. for_loop (py_range N) (\<lambda>j. update_cell u u_new M N K i j)) h =
        for_loop (py_range N) (\<lambda>j. update_cell u u_new M N K (int n) j) h1"
    using IH by (simp add: for_loop_append for_loop_single del: for_loop.simps)
  also have "\<dots> = Inr (h\<lparr>store := (store h)(u_new := B[n := f n])\<rparr>)"
    unfolding row using ne by (simp add: h1_def f_def)
  also have "\<dots> = Inr (h\<lparr>store := (store h)(u_new := map f [0..<Suc n] @ drop (Suc n) A)\<rparr>)"
    by (simp only: Bupd)
  finally show ?case unfolding A_def f_def .
qed

lemma diffusion_step_result:
  assumes "u < fresh h" "has_shape (store h u) M N"
  shows "diffusion_step M N K u h =
           Inr (fresh h, \<lparr>store = (store h)(fresh h := spec_step (store h u) M N K),
                          fresh = Suc (fresh h)\<rparr>)"
proof -
  define h1 where "h1 = \<lparr>store = (store h)(fresh h := store h u), fresh = Suc (fresh h)\<rparr>"
  have ne: "u \<noteq> fresh h" using assms(1) by simp
  have s1u: "store h1 u = store h u" using ne by (simp add: h1_def)
  have s1n: "store h1 (fresh h) = store h u" by (simp add: h1_def)
  have su: "has_shape (store h1 u) M N" using assms(2) s1u by simp
  have sn: "has_shape (store h1 (fresh h)) M N" using assms(2) s1n by simp
  have "length (store h u) = nat M" using assms(2) by (rule has_shape_length)
  then have dr: "drop (nat M) (store h u) = []" by simp
  have loop: "for_loop (py_range M)
            (\<lambda>i. for_loop (py_range N) (\<lambda>j. update_cell u (fresh h) M N K i j)) h1 =
           Inr (h1\<lparr>store := (store h1)(fresh h := spec_step (store h u) M N K)\<rparr>)"
    using grid_loop_prefix [OF ne su sn, of "nat M" K]
    by (simp add: py_range_def s1u s1n dr spec_step_def o_def)
  show ?thesis
    by (simp add: diffusion_step_def np_copy_def alloc_def loop [unfolded h1_def])
qed

section \<open>One update and the whole simulation, against the update rule\<close>

lemma step_spec:
  assumes "has_shape g M N"
  shows "step g M N K = Inr (spec_step g M N K)"
proof -
  define h where "h = \<lparr>store = (store empty_heap)(fresh empty_heap := g),
                        fresh = Suc (fresh empty_heap)\<rparr>"
  have "0 < fresh h" "has_shape (store h 0) M N"
    using assms by (simp_all add: h_def empty_heap_def)
  then have "diffusion_step M N K 0 h =
           Inr (fresh h, \<lparr>store = (store h)(fresh h := spec_step (store h 0) M N K),
                          fresh = Suc (fresh h)\<rparr>)"
    by (rule diffusion_step_result)
  then show ?thesis
    by (simp add: step_def alloc_def h_def empty_heap_def)
qed




lemma has_shape_spec_step:
  assumes "has_shape g M N"
  shows "has_shape (spec_step g M N K) M N"
proof (cases "0 < M")
  case True
  then have "0 \<le> N" using assms has_shape_cols_nonneg by blast
  then show ?thesis using True
    by (simp add: has_shape_def spec_step_def py_range_def list_all_iff)
next
  case False
  then have "M = 0" using assms by (simp add: has_shape_def)
  then show ?thesis by (simp add: has_shape_def spec_step_def py_range_def)
qed







lemma time_step_result:
  assumes "u < fresh h" "has_shape (store h u) M N"
  shows "time_step M N K (u, history, h) =
           Inr (fresh h, history @ [Suc (fresh h)],
                \<lparr>store = (store h)(fresh h := spec_step (store h u) M N K,
                                    Suc (fresh h) := spec_step (store h u) M N K),
                 fresh = Suc (Suc (fresh h))\<rparr>)"
  by (simp add: time_step_def diffusion_step_result [OF assms] np_copy_def alloc_def)

lemma time_loop:
  assumes "u < fresh h" "has_shape (store h u) M N" "\<forall>r \<in> set history. r < fresh h"
  shows "\<exists>u' history' h'.
           for_loop (map int [0..<n]) (\<lambda>t. time_step M N K) (u, history, h) =
             Inr (u', history', h') \<and>
           u' < fresh h' \<and> (\<forall>r \<in> set history'. r < fresh h') \<and>
           store h' u' = ((\<lambda>g. spec_step g M N K) ^^ n) (store h u) \<and>
           map (store h') history' =
             map (store h) history @
             map (\<lambda>t. ((\<lambda>g. spec_step g M N K) ^^ t) (store h u)) [1..<Suc n]"
proof (induction n)
  case 0
  show ?case using assms by simp
next
  case (Suc n)
  then obtain u1 hist1 h1 where
    run: "for_loop (map int [0..<n]) (\<lambda>t. time_step M N K) (u, history, h) = Inr (u1, hist1, h1)"
    and u1: "u1 < fresh h1" and hist1: "\<forall>r \<in> set hist1. r < fresh h1"
    and st: "store h1 u1 = ((\<lambda>g. spec_step g M N K) ^^ n) (store h u)"
    and hs: "map (store h1) hist1 =
             map (store h) history @
             map (\<lambda>t. ((\<lambda>g. spec_step g M N K) ^^ t) (store h u)) [1..<Suc n]"
    by blast
  have shape_iter: "has_shape (((\<lambda>g. spec_step g M N K) ^^ k) (store h u)) M N" for k
    by (induction k) (simp_all add: assms(2) has_shape_spec_step)
  have sh1: "has_shape (store h1 u1) M N" unfolding st by (rule shape_iter)
  define S where "S = spec_step (store h1 u1) M N K"
  define h2 where "h2 = \<lparr>store = (store h1)(fresh h1 := S, Suc (fresh h1) := S),
                          fresh = Suc (Suc (fresh h1))\<rparr>"
  have ts: "time_step M N K (u1, hist1, h1) = Inr (fresh h1, hist1 @ [Suc (fresh h1)], h2)"
    unfolding h2_def S_def using u1 sh1 by (rule time_step_result)
  have run2: "for_loop (map int [0..<Suc n]) (\<lambda>t. time_step M N K) (u, history, h) =
          Inr (fresh h1, hist1 @ [Suc (fresh h1)], h2)"
    using run ts by (simp add: for_loop_append for_loop_single del: for_loop.simps)
  have S: "S = ((\<lambda>g. spec_step g M N K) ^^ Suc n) (store h u)"
    by (simp add: S_def st)
  have old: "map (store h2) hist1 = map (store h1) hist1"
    using hist1 by (auto simp: h2_def)
  have "map (store h2) (hist1 @ [Suc (fresh h1)]) =
          map (store h) history @
          map (\<lambda>t. ((\<lambda>g. spec_step g M N K) ^^ t) (store h u)) [1..<Suc (Suc n)]"
    unfolding map_append old hs using S by (simp add: h2_def)
  moreover have "fresh h1 < fresh h2" "\<forall>r \<in> set (hist1 @ [Suc (fresh h1)]). r < fresh h2"
    using hist1 by (auto simp: h2_def)
  moreover have "store h2 (fresh h1) = ((\<lambda>g. spec_step g M N K) ^^ Suc n) (store h u)"
    using S by (simp add: h2_def)
  ultimately show ?case using run2 by blast
qed

lemma simulate_diffusion_result:
  assumes "has_shape u0 M N"
  shows "simulate_diffusion M N T u0 K =
           Inr (map (\<lambda>t. ((\<lambda>g. spec_step g M N K) ^^ t) u0) [0..<Suc (nat T)])"
proof -
  define h1 where "h1 = \<lparr>store = (store empty_heap)(0 := u0, Suc 0 := u0), fresh = Suc (Suc 0)\<rparr>"
  have pre: "0 < fresh h1" "has_shape (store h1 0) M N" "\<forall>r \<in> set [Suc 0]. r < fresh h1"
    using assms by (simp_all add: h1_def)
  obtain u' history' h' where
    run: "for_loop (map int [0..<nat T]) (\<lambda>t. time_step M N K) (0, [Suc 0], h1) =
             Inr (u', history', h')"
    and hs: "map (store h') history' =
             map (store h1) [Suc 0] @
             map (\<lambda>t. ((\<lambda>g. spec_step g M N K) ^^ t) (store h1 0)) [1..<Suc (nat T)]"
    using time_loop [OF pre, of "nat T" K] by blast
  have "map (store h') history' =
          map (\<lambda>t. ((\<lambda>g. spec_step g M N K) ^^ t) u0) [0..<Suc (nat T)]"
    unfolding hs by (simp add: h1_def upt_conv_Cons del: upt_Suc)
  moreover have "np_array u0 = Inr u0"
    using assms has_shape_rectangular by (simp add: np_array_def)
  ultimately show ?thesis
    using run
    by (simp add: simulate_diffusion_def alloc_def np_copy_def empty_heap_def h1_def py_range_def)
qed

lemma iter_shape:
  "has_shape g M N \<Longrightarrow> has_shape (((\<lambda>g. spec_step g M N K) ^^ t) g) M N"
  by (induction t) (simp_all add: has_shape_spec_step)





text \<open>
  C5. For an \<open>M \<times> N\<close> initial grid and \<open>T \<ge> 0\<close>, simulate_diffusion returns a history
  of exactly \<open>T + 1\<close> grids, each of shape \<open>M \<times> N\<close>; the first one is \<open>u0\<close> and each
  later one is the result of one diffusion update of its predecessor.
\<close>

theorem simulate_diffusion_history:
  assumes "has_shape u0 M N" "0 \<le> T"
  shows "\<exists>history. simulate_diffusion M N T u0 K = Inr history \<and>
           int (length history) = T + 1 \<and>
           history ! 0 = u0 \<and>
           list_all (\<lambda>g. has_shape g M N) history \<and>
           (\<forall>t < nat T. step (history ! t) M N K = Inr (history ! Suc t))"
proof -
  define G where "G = (\<lambda>g. spec_step g M N K)"
  define history where "history = map (\<lambda>t. (G ^^ t) u0) [0..<Suc (nat T)]"
  have run: "simulate_diffusion M N T u0 K = Inr history"
    unfolding history_def G_def using assms(1) by (rule simulate_diffusion_result)
  have len: "int (length history) = T + 1" using assms(2) by (simp add: history_def)
  have nth: "history ! t = (G ^^ t) u0" if "t < Suc (nat T)" for t
    using that unfolding history_def by (simp only: nth_map_upt length_upt add_0 diff_zero)
  have first: "history ! 0 = u0" using nth [of 0] by simp
  have shapes: "list_all (\<lambda>g. has_shape g M N) history"
    unfolding history_def G_def using assms(1) by (simp add: list_all_iff iter_shape)
  have "step (history ! t) M N K = Inr (history ! Suc t)" if "t < nat T" for t
  proof -
    have "has_shape (history ! t) M N"
      using that nth [of t] assms(1) by (simp add: G_def iter_shape)
    then have "step (history ! t) M N K = Inr (G (history ! t))"
      unfolding G_def by (rule step_spec)
    then show ?thesis using that nth [of t] nth [of "Suc t"] by simp
  qed
  then show ?thesis using run len first shapes by blast
qed

theorem simulate_diffusion_history_witness:
  "has_shape [[1, 0], [0, 0]] 2 2 \<and> (0::int) \<le> 2 \<and>
   (\<exists>history. simulate_diffusion 2 2 2 [[1, 0], [0, 0]] 1 = Inr history \<and>
           int (length history) = 2 + 1 \<and>
           history ! 0 = [[1, 0], [0, 0]] \<and>
           list_all (\<lambda>g. has_shape g 2 2) history \<and>
           (\<forall>t < nat 2. step (history ! t) 2 2 1 = Inr (history ! Suc t)))"
  using simulate_diffusion_history [of "[[1, 0], [0, 0]]" 2 2 2 1]
  by (simp add: has_shape_def)



text \<open>
  C7. \<open>M = N = 3\<close>, all mass 1 in the centre cell, \<open>K = 1\<close>: after one update the four
  corners and the four edge midpoints hold \<open>1/8 = 0.125\<close>, the centre holds 0, and the
  entries sum to 1.
\<close>

theorem center_peak_3x3:
  "step [[0, 0, 0], [0, 1, 0], [0, 0, 0]] 3 3 1 =
     Inr [[1 / 8, 1 / 8, 1 / 8], [1 / 8, 0, 1 / 8], [1 / 8, 1 / 8, 1 / 8]]
   \<and> simulate_diffusion 3 3 1 [[0, 0, 0], [0, 1, 0], [0, 0, 0]] 1 =
     Inr [[[0, 0, 0], [0, 1, 0], [0, 0, 0]],
          [[1 / 8, 1 / 8, 1 / 8], [1 / 8, 0, 1 / 8], [1 / 8, 1 / 8, 1 / 8]]]
   \<and> grid_sum [[1 / 8, 1 / 8, 1 / 8], [1 / 8, 0, 1 / 8], [1 / 8, 1 / 8, 1 / 8]] = 1"
  by code_simp



section \<open>The sum of all entries\<close>

































end
